theory Spec2Isabelle
  imports Complex_Main "HOL-Library.Multiset" "HOL-Library.Char_ord" "HOL-Library.List_Lexorder"
begin

section \<open>JavaScript values\<close>

text \<open>
  The analytics engine (\<^verbatim>\<open>src/lib/generic-analytics-engine.ts\<close>) reads metadata values
  through dynamic keys and coerces them with \<^verbatim>\<open>Number(...)\<close>, \<^verbatim>\<open>String(...)\<close>, \<^verbatim>\<open>||\<close> and
  \<^verbatim>\<open>??\<close>. A JavaScript number is modelled as an exact real extended with the three
  special values; the sign of zero and the rounding of IEEE-754 doubles are not
  modelled, so finite arithmetic never overflows and never loses precision.
  A metadata value is one of the primitive values a parsed row can carry.
\<close>

datatype jsnum = NaN | PInf | NInf | Fin real

datatype jsval = Undefined | Null | JBool bool | JNum jsnum | JStr string

datatype error = TypeError | RangeError

text \<open>
  Library functions whose result depends on the digits of a double, on the locale or
  on the host's date parser are taken as parameters, so that every theorem below holds
  for whatever they compute:
  \<^item> \<open>strToNum\<close>: \<^verbatim>\<open>Number(s)\<close> on a string;
  \<^item> \<open>numToStr\<close>: \<^verbatim>\<open>String(x)\<close> on a finite number;
  \<^item> \<open>toFixed1\<close>: \<^verbatim>\<open>x.toFixed(1)\<close> on a finite number;
  \<^item> \<open>toLowerCase\<close>: \<^verbatim>\<open>s.toLowerCase()\<close>;
  \<^item> \<open>isoDay\<close>: \<^verbatim>\<open>new Date(v).toISOString().split('T')[0]\<close>, \<open>None\<close> when the date is
    invalid and \<^verbatim>\<open>toISOString\<close> raises a RangeError;
  \<^item> \<open>localeCompare\<close>: \<^verbatim>\<open>a.localeCompare(b)\<close>.
\<close>

record builtins =
  strToNum :: "string \<Rightarrow> jsnum"
  numToStr :: "real \<Rightarrow> string"
  toFixed1 :: "real \<Rightarrow> string"
  toLowerCase :: "string \<Rightarrow> string"
  isoDay :: "jsval \<Rightarrow> string option"
  localeCompare :: "string \<Rightarrow> string \<Rightarrow> int"

fun Number_js :: "builtins \<Rightarrow> jsval \<Rightarrow> jsnum" where
  "Number_js B Undefined = NaN"
| "Number_js B Null = Fin 0"
| "Number_js B (JBool b) = Fin (if b then 1 else 0)"
| "Number_js B (JNum n) = n"
| "Number_js B (JStr s) = strToNum B s"

fun String_js :: "builtins \<Rightarrow> jsval \<Rightarrow> string" where
  "String_js B Undefined = ''undefined''"
| "String_js B Null = ''null''"
| "String_js B (JBool b) = (if b then ''true'' else ''false'')"
| "String_js B (JNum NaN) = ''NaN''"
| "String_js B (JNum PInf) = ''Infinity''"
| "String_js B (JNum NInf) = ''-Infinity''"
| "String_js B (JNum (Fin x)) = numToStr B x"
| "String_js B (JStr s) = s"

text \<open>\<^verbatim>\<open>a || b\<close>: the falsy values are undefined, null, false, NaN, 0 and the empty string.\<close>

fun truthy :: "jsval \<Rightarrow> bool" where
  "truthy Undefined = False"
| "truthy Null = False"
| "truthy (JBool b) = b"
| "truthy (JNum NaN) = False"
| "truthy (JNum (Fin x)) = (x \<noteq> 0)"
| "truthy (JNum n) = True"
| "truthy (JStr s) = (s \<noteq> [])"

definition js_or :: "jsval \<Rightarrow> jsval \<Rightarrow> jsval" where
  "js_or a b = (if truthy a then a else b)"

text \<open>\<^verbatim>\<open>Number(v) || d\<close> on numbers.\<close>

definition num_or :: "jsnum \<Rightarrow> jsnum \<Rightarrow> jsnum" where
  "num_or n d = (if n = NaN \<or> n = Fin 0 then d else n)"

text \<open>\<^verbatim>\<open>a ?? b\<close>: only undefined and null are replaced.\<close>

fun nullish :: "jsval \<Rightarrow> jsval \<Rightarrow> jsval" where
  "nullish Undefined d = d"
| "nullish Null d = d"
| "nullish v d = v"

text \<open>\<^verbatim>\<open>!isNaN(n) && isFinite(n)\<close> keeps exactly the finite numbers.\<close>

fun finite_num :: "jsnum \<Rightarrow> real option" where
  "finite_num (Fin x) = Some x"
| "finite_num n = None"

fun jneg :: "jsnum \<Rightarrow> jsnum" where
  "jneg NaN = NaN"
| "jneg PInf = NInf"
| "jneg NInf = PInf"
| "jneg (Fin x) = Fin (- x)"

fun jadd :: "jsnum \<Rightarrow> jsnum \<Rightarrow> jsnum" where
  "jadd NaN b = NaN"
| "jadd a NaN = NaN"
| "jadd PInf NInf = NaN"
| "jadd NInf PInf = NaN"
| "jadd PInf b = PInf"
| "jadd a PInf = PInf"
| "jadd NInf b = NInf"
| "jadd a NInf = NInf"
| "jadd (Fin x) (Fin y) = Fin (x + y)"

definition jsub :: "jsnum \<Rightarrow> jsnum \<Rightarrow> jsnum" where
  "jsub a b = jadd a (jneg b)"

text \<open>
  Division. The engine only divides by a divisor it has tested to be non-zero
  (\<^verbatim>\<open>count > 0\<close>, \<^verbatim>\<open>denominator !== 0\<close>); at 0 the quotient is the one of a positive
  zero.
\<close>

fun jdiv :: "jsnum \<Rightarrow> jsnum \<Rightarrow> jsnum" where
  "jdiv NaN b = NaN"
| "jdiv a NaN = NaN"
| "jdiv (Fin x) (Fin d) =
     (if d \<noteq> 0 then Fin (x / d) else if x = 0 then NaN else if 0 < x then PInf else NInf)"
| "jdiv (Fin x) b = Fin 0"
| "jdiv PInf (Fin d) = (if d < 0 then NInf else PInf)"
| "jdiv NInf (Fin d) = (if d < 0 then PInf else NInf)"
| "jdiv a b = NaN"

fun jabs :: "jsnum \<Rightarrow> jsnum" where
  "jabs NaN = NaN"
| "jabs (Fin x) = Fin \<bar>x\<bar>"
| "jabs n = PInf"

text \<open>\<^verbatim>\<open>a > 0\<close>, \<^verbatim>\<open>a < b\<close>, \<^verbatim>\<open>a <= b\<close> on numbers: every comparison with NaN is false.\<close>

fun jpositive :: "jsnum \<Rightarrow> bool" where
  "jpositive (Fin x) = (0 < x)"
| "jpositive PInf = True"
| "jpositive n = False"

fun jless :: "jsnum \<Rightarrow> jsnum \<Rightarrow> bool" where
  "jless NaN b = False"
| "jless a NaN = False"
| "jless PInf b = False"
| "jless a PInf = True"
| "jless NInf NInf = False"
| "jless NInf b = True"
| "jless a NInf = False"
| "jless (Fin x) (Fin y) = (x < y)"

fun jle :: "jsnum \<Rightarrow> jsnum \<Rightarrow> bool" where
  "jle NaN b = False"
| "jle a NaN = False"
| "jle a b = (\<not> jless b a)"

text \<open>\<^verbatim>\<open>Math.min(...xs)\<close> and \<^verbatim>\<open>Math.max(...xs)\<close>: NaN if any argument is NaN,
  \<^verbatim>\<open>Infinity\<close> (\<^verbatim>\<open>-Infinity\<close>) on no argument.\<close>

fun jmin2 :: "jsnum \<Rightarrow> jsnum \<Rightarrow> jsnum" where
  "jmin2 NaN b = NaN"
| "jmin2 a NaN = NaN"
| "jmin2 a b = (if jless b a then b else a)"

fun jmax2 :: "jsnum \<Rightarrow> jsnum \<Rightarrow> jsnum" where
  "jmax2 NaN b = NaN"
| "jmax2 a NaN = NaN"
| "jmax2 a b = (if jless a b then b else a)"

definition Math_min :: "jsnum list \<Rightarrow> jsnum" where
  "Math_min xs = foldr jmin2 xs PInf"

definition Math_max :: "jsnum list \<Rightarrow> jsnum" where
  "Math_max xs = foldr jmax2 xs NInf"

text \<open>\<^verbatim>\<open>Math.round(x)\<close> rounds half towards \<open>+\<infinity>\<close>; \<^verbatim>\<open>Math.sqrt\<close> of a negative number
  is NaN.\<close>

definition Math_round :: "real \<Rightarrow> real" where
  "Math_round x = of_int \<lfloor>x + 1 / 2\<rfloor>"

definition Math_sqrt :: "real \<Rightarrow> jsnum" where
  "Math_sqrt x = (if x < 0 then NaN else Fin (sqrt x))"

text \<open>
  \<^verbatim>\<open>xs.sort(cmp)\<close>: a stable sort by a comparator that returns a number; an element moves
  behind another only when the comparator is positive (NaN counts as 0). For a
  comparator that is not a consistent order the standard leaves the order to the
  engine; the result is a permutation of the input in every case.
\<close>

fun insert_by :: "('a \<Rightarrow> 'a \<Rightarrow> jsnum) \<Rightarrow> 'a \<Rightarrow> 'a list \<Rightarrow> 'a list" where
  "insert_by cmp x [] = [x]"
| "insert_by cmp x (y # ys) =
     (if jpositive (cmp x y) then y # insert_by cmp x ys else x # y # ys)"

definition sort_js :: "('a \<Rightarrow> 'a \<Rightarrow> jsnum) \<Rightarrow> 'a list \<Rightarrow> 'a list" where
  "sort_js cmp xs = foldr (insert_by cmp) xs []"

section \<open>Data model\<close>

text \<open>
  \<^verbatim>\<open>SchemaDefinition\<close> and \<^verbatim>\<open>AnalyticsView\<close> are declared in \<^verbatim>\<open>@/types/schema\<close>; the
  records hold the fields the code reads. \<^verbatim>\<open>CallRecord\<close> is \<^verbatim>\<open>src/types/call.ts\<close>; the
  engine tests \<^verbatim>\<open>!call.metadata\<close>, so the metadata is optional here. Field names of
  different result types carry a prefix, since record fields share one name space.
\<close>

record field_def =
  field_id :: string
  field_name :: string
  displayName :: string
  dataType :: string
  semanticRole :: "string option"

record schema_def =
  schema_id :: string
  schema_name :: string
  updatedAt :: "string option"
  schema_fields :: "field_def list"

text \<open>The aggregation of a view: \<^verbatim>\<open>'sum' | 'avg' | 'min' | 'max' | 'count'\<close>.\<close>

datatype aggregation = AggSum | AggAvg | AggMin | AggMax | AggCount

record analytics_view =
  dimensionField :: string
  measureField :: "string option"
  aggregation :: aggregation

type_synonym metadata = "string \<Rightarrow> jsval option"

record call_record =
  call_id :: string
  metadata :: "metadata option"
  createdAt :: string

text \<open>\<^verbatim>\<open>m[key]\<close>: a missing key reads as undefined.\<close>

definition get_prop :: "metadata \<Rightarrow> string \<Rightarrow> jsval" where
  "get_prop m k = (case m k of None \<Rightarrow> Undefined | Some v \<Rightarrow> v)"

text \<open>\<^verbatim>\<open>schema.fields.find(f => f.id === fieldId)\<close>; an undefined id finds nothing.\<close>

fun find_field :: "schema_def \<Rightarrow> string option \<Rightarrow> field_def option" where
  "find_field schema None = None"
| "find_field schema (Some fid) = List.find (\<lambda>f. field_id f = fid) (schema_fields schema)"

section \<open>The generic analytics engine\<close>

text \<open>
  \<^verbatim>\<open>src/lib/generic-analytics-engine.ts\<close>, class \<^verbatim>\<open>GenericAnalyticsEngine\<close>. The
  \<^verbatim>\<open>console.warn\<close> lines write a diagnostic and do not change a result; they are left out.
\<close>

record generic_analytic_result =
  gr_dimension :: string
  gr_measure :: jsnum
  gr_count :: nat
  gr_percentage :: real

record trend_data_point =
  tp_date :: string
  tp_value :: jsnum
  tp_count :: nat

datatype strength = Strong | Moderate | Weak | NoStrength

record correlation_result =
  cr_field1 :: string
  cr_field2 :: string
  cr_coefficient :: jsnum
  cr_strength :: strength


record histogram_bucket =
  hb_range :: string
  hb_count :: nat
  hb_percentage :: real

record top_value =
  tv_value :: string
  tv_count :: nat
  tv_percentage :: real



record statistics =
  st_count :: nat
  st_sum :: real
  st_mean :: real
  st_median :: real
  st_min :: real
  st_max :: real
  st_stdDev :: real

subsection \<open>Grouping\<close>

text \<open>
  A \<^verbatim>\<open>Map<string, CallRecord[]>\<close> iterates in insertion order: an association list whose
  new keys go to the end. \<open>group_push\<close> is
  \<^verbatim>\<open>if (!groups.has(key)) groups.set(key, []); groups.get(key)!.push(call)\<close>.
\<close>

type_synonym groups = "(string \<times> call_record list) list"

fun group_push :: "string \<Rightarrow> call_record \<Rightarrow> groups \<Rightarrow> groups" where
  "group_push key call [] = [(key, [call])]"
| "group_push key call ((k, cs) # g) =
     (if k = key then (k, cs @ [call]) # g else (k, cs) # group_push key call g)"

text \<open>The \<^verbatim>\<open>forEach\<close> over the calls; a call for which \<open>key\<close> is \<open>None\<close> is skipped
  (\<^verbatim>\<open>if (!call.metadata) return\<close>).\<close>

definition group_calls :: "(call_record \<Rightarrow> string option) \<Rightarrow> call_record list \<Rightarrow> groups" where
  "group_calls key calls =
     foldl (\<lambda>g call. case key call of None \<Rightarrow> g | Some k \<Rightarrow> group_push k call g) [] calls"

text \<open>\<^verbatim>\<open>call.metadata[fieldId]\<close> on a call that has passed the metadata test.\<close>

definition metadata_value :: "call_record \<Rightarrow> string \<Rightarrow> jsval" where
  "metadata_value call k = (case metadata call of None \<Rightarrow> Undefined | Some m \<Rightarrow> get_prop m k)"

text \<open>\<^verbatim>\<open>String(call.metadata[fieldId] ?? 'Unknown')\<close>, the group key.\<close>

definition dimension_key :: "builtins \<Rightarrow> string \<Rightarrow> call_record \<Rightarrow> string option" where
  "dimension_key B dimId call =
     (case metadata call of
        None \<Rightarrow> None
      | Some m \<Rightarrow> Some (String_js B (nullish (get_prop m dimId) (JStr ''Unknown''))))"

text \<open>The calls of the group with a given key, for stating what a group's result is.\<close>

definition members_of :: "builtins \<Rightarrow> string \<Rightarrow> call_record list \<Rightarrow> string \<Rightarrow> call_record list" where
  "members_of B dimId calls key = filter (\<lambda>call. dimension_key B dimId call = Some key) calls"

subsection \<open>The aggregation switch\<close>

text \<open>The same \<^verbatim>\<open>switch (view.aggregation)\<close> stands in \<^verbatim>\<open>aggregateByDimension\<close> and in
  \<^verbatim>\<open>calculateTrends\<close>.\<close>

definition measure_sum :: "builtins \<Rightarrow> string \<Rightarrow> call_record list \<Rightarrow> jsnum" where
  "measure_sum B mf groupCalls =
     foldl (\<lambda>sum call. jadd sum (num_or (Number_js B (metadata_value call mf)) (Fin 0)))
       (Fin 0) groupCalls"

fun aggregate :: "builtins \<Rightarrow> aggregation \<Rightarrow> string \<Rightarrow> call_record list \<Rightarrow> jsnum" where
  "aggregate B AggSum mf groupCalls = measure_sum B mf groupCalls"
| "aggregate B AggAvg mf groupCalls =
     (let count = length groupCalls; total = measure_sum B mf groupCalls
      in if count > 0 then jdiv total (Fin (real count)) else Fin 0)"
| "aggregate B AggMin mf groupCalls =
     Math_min (map (\<lambda>call. num_or (Number_js B (metadata_value call mf)) PInf) groupCalls)"
| "aggregate B AggMax mf groupCalls =
     Math_max (map (\<lambda>call. num_or (Number_js B (metadata_value call mf)) NInf) groupCalls)"
| "aggregate B AggCount mf groupCalls = Fin (real (length groupCalls))"

text \<open>\<^verbatim>\<open>if (measureField) { switch ... } else { measure = count }\<close>, where
  \<^verbatim>\<open>measureField\<close> is the schema field found for \<^verbatim>\<open>view.measureField\<close>.\<close>

definition group_measure ::
  "builtins \<Rightarrow> schema_def \<Rightarrow> analytics_view \<Rightarrow> call_record list \<Rightarrow> jsnum" where
  "group_measure B schema view groupCalls =
     (case measureField view of
        None \<Rightarrow> Fin (real (length groupCalls))
      | Some mf \<Rightarrow>
          (case find_field schema (Some mf) of
             None \<Rightarrow> Fin (real (length groupCalls))
           | Some measureField' \<Rightarrow> aggregate B (aggregation view) mf groupCalls))"

subsection \<open>aggregateByDimension\<close>

definition aggregateByDimension ::
  "builtins \<Rightarrow> call_record list \<Rightarrow> schema_def \<Rightarrow> analytics_view \<Rightarrow> generic_analytic_result list" where
  "aggregateByDimension B calls schema view =
     (case find_field schema (Some (dimensionField view)) of
        None \<Rightarrow> []
      | Some dimensionField' \<Rightarrow>
          (let groups = group_calls (dimension_key B (dimensionField view)) calls;
               totalCalls = length calls;
               results = map (\<lambda>(dimensionValue, groupCalls).
                   \<lparr>gr_dimension = dimensionValue,
                    gr_measure = group_measure B schema view groupCalls,
                    gr_count = length groupCalls,
                    gr_percentage =
                      (if totalCalls > 0 then real (length groupCalls) / real totalCalls * 100 else 0)\<rparr>)
                 groups
           in sort_js (\<lambda>a b. jsub (gr_measure b) (gr_measure a)) results))"

subsection \<open>calculateTrends\<close>

definition timestamp_field :: "schema_def \<Rightarrow> field_def option" where
  "timestamp_field schema =
     (case List.find (\<lambda>f. semanticRole f = Some ''timestamp'') (schema_fields schema) of
        Some f \<Rightarrow> Some f
      | None \<Rightarrow> List.find (\<lambda>f. dataType f = ''date'') (schema_fields schema))"

text \<open>The \<^verbatim>\<open>forEach\<close> that groups by day; \<^verbatim>\<open>toISOString\<close> raises a RangeError on an
  invalid date, which ends the whole call.\<close>

fun date_groups :: "builtins \<Rightarrow> string \<Rightarrow> call_record list \<Rightarrow> groups \<Rightarrow> error + groups" where
  "date_groups B ts [] g = Inr g"
| "date_groups B ts (call # calls) g =
     (case metadata call of
        None \<Rightarrow> date_groups B ts calls g
      | Some m \<Rightarrow>
          (case isoDay B (js_or (get_prop m ts) (JStr (createdAt call))) of
             None \<Rightarrow> Inl RangeError
           | Some date \<Rightarrow> date_groups B ts calls (group_push date call g)))"

definition calculateTrends ::
  "builtins \<Rightarrow> call_record list \<Rightarrow> schema_def \<Rightarrow> analytics_view \<Rightarrow> error + trend_data_point list" where
  "calculateTrends B calls schema view =
     (case timestamp_field schema of
        None \<Rightarrow> Inr []
      | Some timestampField \<Rightarrow>
          (case date_groups B (field_id timestampField) calls [] of
             Inl e \<Rightarrow> Inl e
           | Inr dateGroups \<Rightarrow>
               Inr (sort_js (\<lambda>a b. Fin (real_of_int (localeCompare B (tp_date a) (tp_date b))))
                 (map (\<lambda>(date, dateCalls).
                     \<lparr>tp_date = date,
                      tp_value = group_measure B schema view dateCalls,
                      tp_count = length dateCalls\<rparr>)
                   dateGroups))))"

subsection \<open>correlate\<close>

text \<open>The pair of a call, kept when both values are finite numbers.\<close>

definition numeric_pair :: "builtins \<Rightarrow> string \<Rightarrow> string \<Rightarrow> call_record \<Rightarrow> (real \<times> real) option" where
  "numeric_pair B f1 f2 call =
     (case metadata call of
        None \<Rightarrow> None
      | Some m \<Rightarrow>
          (case finite_num (Number_js B (get_prop m f1)) of
             None \<Rightarrow> None
           | Some val1 \<Rightarrow>
               (case finite_num (Number_js B (get_prop m f2)) of
                  None \<Rightarrow> None
                | Some val2 \<Rightarrow> Some (val1, val2))))"

definition numeric_pairs ::
  "builtins \<Rightarrow> call_record list \<Rightarrow> string \<Rightarrow> string \<Rightarrow> (real \<times> real) list" where
  "numeric_pairs B calls f1 f2 = List.map_filter (numeric_pair B f1 f2) calls"

text \<open>\<^verbatim>\<open>pairs.reduce((sum, p) => sum + f(p), 0)\<close>.\<close>

definition reduce_sum :: "('a \<Rightarrow> real) \<Rightarrow> 'a list \<Rightarrow> real" where
  "reduce_sum f xs = foldl (\<lambda>sum p. sum + f p) 0 xs"

definition pearson_numerator :: "(real \<times> real) list \<Rightarrow> real" where
  "pearson_numerator pairs =
     (let n = real (length pairs);
          sum1 = reduce_sum fst pairs;
          sum2 = reduce_sum snd pairs;
          sumProduct = reduce_sum (\<lambda>(x, y). x * y) pairs
      in n * sumProduct - sum1 * sum2)"

definition pearson_denominator :: "(real \<times> real) list \<Rightarrow> jsnum" where
  "pearson_denominator pairs =
     (let n = real (length pairs);
          sum1 = reduce_sum fst pairs;
          sum2 = reduce_sum snd pairs;
          sum1Sq = reduce_sum (\<lambda>(x, y). x * x) pairs;
          sum2Sq = reduce_sum (\<lambda>(x, y). y * y) pairs
      in Math_sqrt ((n * sum1Sq - sum1 * sum1) * (n * sum2Sq - sum2 * sum2)))"

definition pearson_coefficient :: "(real \<times> real) list \<Rightarrow> jsnum" where
  "pearson_coefficient pairs =
     (let numerator = pearson_numerator pairs;
          denominator = pearson_denominator pairs
      in if denominator \<noteq> Fin 0 then jdiv (Fin numerator) denominator else Fin 0)"

definition strength_of :: "jsnum \<Rightarrow> strength" where
  "strength_of coefficient =
     (let absCoeff = jabs coefficient
      in if jle (Fin (7 / 10)) absCoeff then Strong
         else if jle (Fin (4 / 10)) absCoeff then Moderate
         else if jle (Fin (2 / 10)) absCoeff then Weak
         else NoStrength)"

text \<open>\<^verbatim>\<open>Math.round(c * k) / k\<close>.\<close>

fun round_to :: "real \<Rightarrow> jsnum \<Rightarrow> jsnum" where
  "round_to k (Fin x) = Fin (Math_round (x * k) / k)"
| "round_to k n = n"

definition correlate ::
  "builtins \<Rightarrow> call_record list \<Rightarrow> schema_def \<Rightarrow> string \<Rightarrow> string \<Rightarrow> correlation_result option" where
  "correlate B calls schema field1Id field2Id =
     (case find_field schema (Some field1Id) of
        None \<Rightarrow> None
      | Some field1 \<Rightarrow>
          (case find_field schema (Some field2Id) of
             None \<Rightarrow> None
           | Some field2 \<Rightarrow>
               (let pairs = numeric_pairs B calls field1Id field2Id
                in if length pairs < 3
                   then Some \<lparr>cr_field1 = displayName field1, cr_field2 = displayName field2,
                              cr_coefficient = Fin 0, cr_strength = NoStrength\<rparr>
                   else
                     (let coefficient = pearson_coefficient pairs
                      in Some \<lparr>cr_field1 = displayName field1, cr_field2 = displayName field2,
                                cr_coefficient = round_to 1000 coefficient,
                                cr_strength = strength_of coefficient\<rparr>))))"

subsection \<open>generateScatterData\<close>




subsection \<open>calculatePercentile, generateHistogram, calculateStatistics\<close>

text \<open>
  \<^verbatim>\<open>calls.map(call => Number(call.metadata[fieldId])).filter(val => !isNaN(val) && isFinite(val))\<close>.
  These three functions read \<^verbatim>\<open>call.metadata[fieldId]\<close> without the metadata test, so a
  call without metadata raises a TypeError.
\<close>

definition numeric_values :: "builtins \<Rightarrow> call_record list \<Rightarrow> string \<Rightarrow> error + real list" where
  "numeric_values B calls fid =
     (if list_ex (\<lambda>call. metadata call = None) calls then Inl TypeError
      else Inr (List.map_filter (\<lambda>call. finite_num (Number_js B (metadata_value call fid))) calls))"

text \<open>The interpolation of \<^verbatim>\<open>calculatePercentile\<close> on the sorted, non-empty values.\<close>

definition percentile_of :: "real list \<Rightarrow> real \<Rightarrow> real" where
  "percentile_of values percentile =
     (let index = (percentile / 100) * (real (length values) - 1);
          lower = \<lfloor>index\<rfloor>;
          upper = \<lceil>index\<rceil>;
          weight = index - of_int lower
      in if upper \<ge> int (length values) then values ! (length values - 1)
         else if lower < 0 then values ! 0
         else values ! nat lower * (1 - weight) + values ! nat upper * weight)"

definition calculatePercentile ::
  "builtins \<Rightarrow> call_record list \<Rightarrow> string \<Rightarrow> real \<Rightarrow> error + real option" where
  "calculatePercentile B calls fid percentile =
     (case numeric_values B calls fid of
        Inl e \<Rightarrow> Inl e
      | Inr vs \<Rightarrow>
          (let values = sort vs
           in if length values = 0 then Inr None else Inr (Some (percentile_of values percentile))))"

text \<open>Bucket \<open>i\<close> of \<open>buckets\<close>: \<^verbatim>\<open>rangeStart\<close>, \<^verbatim>\<open>rangeEnd\<close> and the filter that counts.\<close>

definition rangeStart :: "real \<Rightarrow> real \<Rightarrow> nat \<Rightarrow> real" where
  "rangeStart min' bucketSize i = min' + real i * bucketSize"

definition rangeEnd :: "real \<Rightarrow> real \<Rightarrow> real \<Rightarrow> real \<Rightarrow> nat \<Rightarrow> real" where
  "rangeEnd min' max' bucketSize buckets i =
     (if real i = buckets - 1 then max' else min' + (real i + 1) * bucketSize)"

definition in_bucket :: "real \<Rightarrow> real \<Rightarrow> real \<Rightarrow> real \<Rightarrow> nat \<Rightarrow> real \<Rightarrow> bool" where
  "in_bucket min' max' bucketSize buckets i val =
     (val \<ge> rangeStart min' bucketSize i \<and>
      (if real i = buckets - 1 then val \<le> rangeEnd min' max' bucketSize buckets i
       else val < rangeEnd min' max' bucketSize buckets i))"

text \<open>\<^verbatim>\<open>for (let i = 0; i < buckets; i++)\<close> runs over the naturals below \<open>buckets\<close>; a
  bucket count that is not a finite number is not modelled.\<close>

definition generateHistogram ::
  "builtins \<Rightarrow> call_record list \<Rightarrow> string \<Rightarrow> real \<Rightarrow> error + histogram_bucket list" where
  "generateHistogram B calls fid buckets =
     (case numeric_values B calls fid of
        Inl e \<Rightarrow> Inl e
      | Inr [] \<Rightarrow> Inr []
      | Inr (v # vs) \<Rightarrow>
          (let values = v # vs;
               min' = fold min vs v;
               max' = fold max vs v;
               bucketSize = (max' - min') / buckets
           in Inr (map (\<lambda>i.
                 (let count = length (filter (in_bucket min' max' bucketSize buckets i) values)
                  in \<lparr>hb_range = toFixed1 B (rangeStart min' bucketSize i) @ ''-'' @
                                   toFixed1 B (rangeEnd min' max' bucketSize buckets i),
                       hb_count = count,
                       hb_percentage = real count / real (length values) * 100\<rparr>))
               [0..<nat \<lceil>buckets\<rceil>])))"

definition round2 :: "real \<Rightarrow> real" where
  "round2 x = Math_round (x * 100) / 100"

definition median_of :: "real list \<Rightarrow> real" where
  "median_of sorted' =
     (let count = length sorted'
      in if count mod 2 = 0 then (sorted' ! (count div 2 - 1) + sorted' ! (count div 2)) / 2
         else sorted' ! (count div 2))"

definition calculateStatistics ::
  "builtins \<Rightarrow> call_record list \<Rightarrow> string \<Rightarrow> error + statistics option" where
  "calculateStatistics B calls fid =
     (case numeric_values B calls fid of
        Inl e \<Rightarrow> Inl e
      | Inr [] \<Rightarrow> Inr None
      | Inr (v # vs) \<Rightarrow>
          (let values = v # vs;
               count = length values;
               sum = foldl (\<lambda>a b. a + b) 0 values;
               mean = sum / real count;
               sorted' = sort values;
               median = median_of sorted';
               min' = fold min vs v;
               max' = fold max vs v;
               variance = foldl (\<lambda>sum val. sum + (val - mean) ^ 2) 0 values / real count;
               stdDev = sqrt variance
           in Inr (Some \<lparr>st_count = count, st_sum = round2 sum, st_mean = round2 mean,
                          st_median = round2 median, st_min = round2 min', st_max = round2 max',
                          st_stdDev = round2 stdDev\<rparr>)))"

subsection \<open>getTopValues\<close>

text \<open>\<^verbatim>\<open>valueCounts.set(value, (valueCounts.get(value) || 0) + 1)\<close> on an insertion-ordered
  map.\<close>

fun count_push :: "string \<Rightarrow> (string \<times> nat) list \<Rightarrow> (string \<times> nat) list" where
  "count_push v [] = [(v, 1)]"
| "count_push v ((k, n) # m) = (if k = v then (k, n + 1) # m else (k, n) # count_push v m)"

text \<open>\<^verbatim>\<open>xs.slice(0, limit)\<close>: the limit is truncated towards zero, a negative one counts
  from the end.\<close>

definition slice0 :: "real \<Rightarrow> 'a list \<Rightarrow> 'a list" where
  "slice0 limit xs =
     (let k = (if limit < 0 then \<lceil>limit\<rceil> else \<lfloor>limit\<rfloor>)
      in if k < 0 then take (nat (int (length xs) + k)) xs else take (nat k) xs)"

definition getTopValues :: "builtins \<Rightarrow> call_record list \<Rightarrow> string \<Rightarrow> real \<Rightarrow> top_value list" where
  "getTopValues B calls fid limit =
     (let valueCounts =
            foldl (\<lambda>m call. case dimension_key B fid call of None \<Rightarrow> m | Some value \<Rightarrow> count_push value m)
              [] calls;
          total = length calls
      in slice0 limit
           (sort_js (\<lambda>a b. Fin (real (tv_count b) - real (tv_count a)))
              (map (\<lambda>(value, count).
                  \<lparr>tv_value = value, tv_count = count,
                   tv_percentage = real count / real total * 100\<rparr>)
                valueCounts)))"

subsection \<open>filterCalls\<close>





section \<open>Schema detection (the import dialog's \<^verbatim>\<open>detectSchema\<close>)\<close>

text \<open>
  \<^verbatim>\<open>src/unnamed/part_002\<close>, lines 490-570. \<^verbatim>\<open>SchemaMapper.calculateMatchScore\<close> is not
  among the sources and is the parameter \<open>calculateMatchScore\<close>. The reduce keeps the
  current best unless a later schema scores strictly higher, starting from
  \<^verbatim>\<open>{ schema: null, score: 0 }\<close>.
\<close>

definition better ::
  "schema_def option \<times> real \<Rightarrow> schema_def \<times> real \<Rightarrow> schema_def option \<times> real" where
  "better best current =
     (if snd current > snd best then (Some (fst current), snd current) else best)"

definition bestMatch :: "(schema_def \<times> real) list \<Rightarrow> schema_def option \<times> real" where
  "bestMatch schemaScores = foldl better (None, 0) schemaScores"

datatype detection = NoData | Detected schema_def real | NoMatch

definition detectSchema ::
  "('row \<Rightarrow> schema_def \<Rightarrow> real) \<Rightarrow> 'row list \<Rightarrow> schema_def list \<Rightarrow> detection" where
  "detectSchema calculateMatchScore rows availableSchemas =
     (case rows of
        [] \<Rightarrow> NoData
      | row0 # _ \<Rightarrow>
          (let schemaScores = map (\<lambda>s. (s, calculateMatchScore row0 s)) availableSchemas;
               best = bestMatch schemaScores
           in case fst best of
                None \<Rightarrow> NoMatch
              | Some s \<Rightarrow> if snd best > 30 then Detected s (snd best / 100) else NoMatch))"

text \<open>Two schemas that differ in their last update, for the examples.\<close>

definition schema_older :: schema_def where
  "schema_older = \<lparr>schema_id = ''loans'', schema_name = ''Loans'',
     updatedAt = Some ''2024-01-01T00:00:00.000Z'', schema_fields = []\<rparr>"

definition schema_newer :: schema_def where
  "schema_newer = \<lparr>schema_id = ''cards'', schema_name = ''Cards'',
     updatedAt = Some ''2025-01-01T00:00:00.000Z'', schema_fields = []\<rparr>"

definition score_tie :: "unit \<Rightarrow> schema_def \<Rightarrow> real" where
  "score_tie row s = 80"

definition score_distinct :: "unit \<Rightarrow> schema_def \<Rightarrow> real" where
  "score_distinct row s = (if schema_id s = ''cards'' then 90 else 80)"

section \<open>Example data\<close>

text \<open>
  An environment for the examples. The examples hold only text for dimensions and
  numbers for measures, and they state no range label of a histogram, so none of its
  functions bears on a value an example states; the general theorems hold for every
  environment.
\<close>

definition no_builtins :: builtins where
  "no_builtins = \<lparr>strToNum = (\<lambda>s. NaN), numToStr = (\<lambda>x. []), toFixed1 = (\<lambda>x. []),
     toLowerCase = (\<lambda>s. s), isoDay = (\<lambda>v. None), localeCompare = (\<lambda>a b. 0)\<rparr>"

definition mk_call :: "string \<Rightarrow> (string \<times> jsval) list \<Rightarrow> call_record" where
  "mk_call i kvs =
     \<lparr>call_id = i, metadata = Some (map_of kvs), createdAt = ''2024-01-01T00:00:00.000Z''\<rparr>"

definition mk_field :: "string \<Rightarrow> string \<Rightarrow> field_def" where
  "mk_field i t =
     \<lparr>field_id = i, field_name = i, displayName = i, dataType = t, semanticRole = None\<rparr>"

definition example_schema :: schema_def where
  "example_schema = \<lparr>schema_id = ''calls'', schema_name = ''Calls'', updatedAt = None,
     schema_fields = [mk_field ''category'' ''text'', mk_field ''amount'' ''number'',
       mk_field ''score'' ''number'']\<rparr>"

text \<open>Scenario 2 of the specification: dimension values A, A, B and a count view.\<close>

definition calls_AAB :: "call_record list" where
  "calls_AAB =
     [mk_call ''1'' [(''category'', JStr ''A'')],
      mk_call ''2'' [(''category'', JStr ''A'')],
      mk_call ''3'' [(''category'', JStr ''B'')]]"

definition count_view :: analytics_view where
  "count_view = \<lparr>dimensionField = ''category'', measureField = None, aggregation = AggCount\<rparr>"

text \<open>A record with metadata followed by one without.\<close>

definition calls_without_metadata :: "call_record list" where
  "calls_without_metadata =
     [mk_call ''1'' [(''category'', JStr ''A'')],
      \<lparr>call_id = ''2'', metadata = None, createdAt = ''2024-01-01T00:00:00.000Z''\<rparr>]"

text \<open>Scenario 4 of the specification: the values 1 to 10.\<close>

definition calls_1_10 :: "call_record list" where
  "calls_1_10 = map (\<lambda>n. mk_call ''c'' [(''amount'', JNum (Fin (real n)))]) [1..<11]"

text \<open>A group A with the amounts 0, 5 and none, and a group B with the amounts 0 and
  none, under a minimum and a maximum view.\<close>

definition calls_min :: "call_record list" where
  "calls_min =
     [mk_call ''1'' [(''category'', JStr ''A''), (''amount'', JNum (Fin 0))],
      mk_call ''2'' [(''category'', JStr ''A''), (''amount'', JNum (Fin 5))],
      mk_call ''3'' [(''category'', JStr ''A'')],
      mk_call ''4'' [(''category'', JStr ''B''), (''amount'', JNum (Fin 0))],
      mk_call ''5'' [(''category'', JStr ''B'')]]"

definition min_view :: analytics_view where
  "min_view = \<lparr>dimensionField = ''category'', measureField = Some ''amount'', aggregation = AggMin\<rparr>"

definition max_view :: analytics_view where
  "max_view = \<lparr>dimensionField = ''category'', measureField = Some ''amount'', aggregation = AggMax\<rparr>"

text \<open>Scenario 3 of the specification, the pairs (1,2), (2,4), (3,6); the same calls
  without the last; and three calls whose amount is constant.\<close>

definition calls_pairs :: "call_record list" where
  "calls_pairs =
     [mk_call ''1'' [(''amount'', JNum (Fin 1)), (''score'', JNum (Fin 2))],
      mk_call ''2'' [(''amount'', JNum (Fin 2)), (''score'', JNum (Fin 4))],
      mk_call ''3'' [(''amount'', JNum (Fin 3)), (''score'', JNum (Fin 6))]]"

definition calls_two_pairs :: "call_record list" where
  "calls_two_pairs =
     [mk_call ''1'' [(''amount'', JNum (Fin 1)), (''score'', JNum (Fin 2))],
      mk_call ''2'' [(''amount'', JNum (Fin 2)), (''score'', JNum (Fin 4))],
      mk_call ''3'' [(''amount'', JNum (Fin 3))]]"


text \<open>A single record with the amount 0.125, and views that name a field the schema does
  not have.\<close>

definition calls_eighth :: "call_record list" where
  "calls_eighth = [mk_call ''1'' [(''amount'', JNum (Fin (1 / 8)))]]"



section \<open>Schema detection: results\<close>

lemma better_keep:
  "\<forall>p\<in>set xs. snd p \<le> snd acc \<Longrightarrow> foldl better acc xs = acc"
  by (induction xs arbitrary: acc) (auto simp: better_def)

lemma better_first:
  "\<exists>p\<in>set xs. snd acc < snd p \<Longrightarrow>
   \<exists>pre s sc post. xs = pre @ (s, sc) # post \<and> foldl better acc xs = (Some s, sc) \<and>
     snd acc < sc \<and> (\<forall>p\<in>set pre. snd p < sc) \<and> (\<forall>p\<in>set post. snd p \<le> sc)"
proof (induction xs arbitrary: acc)
  case Nil
  then show ?case by simp
next
  case (Cons x xs)
  show ?case
  proof (cases "snd acc < snd x")
    case higher: True
    show ?thesis
    proof (cases "\<exists>p\<in>set xs. snd x < snd p")
      case True
      then have "\<exists>p\<in>set xs. snd (Some (fst x), snd x) < snd p" by simp
      from Cons.IH[OF this] obtain pre s sc post where
        split: "xs = pre @ (s, sc) # post" and
        res: "foldl better (Some (fst x), snd x) xs = (Some s, sc)" and
        lt: "snd x < sc" and pre: "\<forall>p\<in>set pre. snd p < sc" and post: "\<forall>p\<in>set post. snd p \<le> sc"
        by auto
      have "x # xs = (x # pre) @ (s, sc) # post" using split by simp
      moreover have "foldl better acc (x # xs) = (Some s, sc)" using res higher by (simp add: better_def)
      moreover have "snd acc < sc" using higher lt by linarith
      moreover have "\<forall>p\<in>set (x # pre). snd p < sc" using pre lt by simp
      ultimately show ?thesis using post by blast
    next
      case False
      then have le: "\<forall>p\<in>set xs. snd p \<le> snd (Some (fst x), snd x)" by (auto simp: not_less)
      have "foldl better acc (x # xs) = (Some (fst x), snd x)"
        using higher better_keep[OF le] by (simp add: better_def)
      moreover have "x # xs = [] @ (fst x, snd x) # xs" by simp
      moreover have "\<forall>p\<in>set xs. snd p \<le> snd x" using le by simp
      moreover have "\<forall>p\<in>set ([]::(schema_def \<times> real) list). snd p < snd x" by simp
      ultimately show ?thesis using higher by blast
    qed
  next
    case False
    then have "\<exists>p\<in>set xs. snd acc < snd p" using Cons.prems by auto
    from Cons.IH[OF this] obtain pre s sc post where
      split: "xs = pre @ (s, sc) # post" and
      res: "foldl better acc xs = (Some s, sc)" and
      lt: "snd acc < sc" and pre: "\<forall>p\<in>set pre. snd p < sc" and post: "\<forall>p\<in>set post. snd p \<le> sc"
      by auto
    have "x # xs = (x # pre) @ (s, sc) # post" using split by simp
    moreover have "foldl better acc (x # xs) = (Some s, sc)" using res False by (simp add: better_def)
    moreover have "\<forall>p\<in>set (x # pre). snd p < sc" using pre lt False by auto
    ultimately show ?thesis using lt post by blast
  qed
qed


lemma bestMatch_unique_top:
  assumes "s \<in> set ss" and "\<forall>t\<in>set ss. t \<noteq> s \<longrightarrow> f t < f s"
  shows "bestMatch (map (\<lambda>s. (s, f s)) ss) = (if 0 < f s then (Some s, f s) else (None, 0))"
proof (cases "0 < f s")
  case True
  let ?xs = "map (\<lambda>s. (s, f s)) ss"
  have "\<exists>p\<in>set ?xs. snd (None :: schema_def option, 0 :: real) < snd p"
    using assms(1) True by force
  from better_first[OF this] obtain pre s' sc post where
    split: "?xs = pre @ (s', sc) # post" and
    res: "foldl better (None, 0) ?xs = (Some s', sc)" and
    pre: "\<forall>p\<in>set pre. snd p < sc" and post: "\<forall>p\<in>set post. snd p \<le> sc"
    by auto
  have mem: "(s', sc) \<in> set ?xs" using split by simp
  then have sc: "sc = f s'" and s': "s' \<in> set ss" by auto
  have "(s, f s) \<in> set ?xs" using assms(1) by auto
  then have "(s, f s) \<in> set pre \<or> (s, f s) = (s', sc) \<or> (s, f s) \<in> set post"
    using split by (metis Un_iff set_append set_ConsD)
  then have "f s \<le> sc" using pre post by auto
  then have "s' = s" using assms(2) s' sc by force
  then show ?thesis using res sc True by (simp add: bestMatch_def)
next
  case False
  have "\<forall>p\<in>set (map (\<lambda>s. (s, f s)) ss). snd p \<le> snd (None :: schema_def option, 0 :: real)"
    using assms False by force
  from better_keep[OF this] show ?thesis using False by (simp add: bestMatch_def)
qed

lemma bestMatch_Some:
  assumes "bestMatch (map (\<lambda>s. (s, f s)) ss) = (Some s, c)"
  shows "\<exists>pre post. ss = pre @ s # post \<and> c = f s \<and> 0 < c \<and>
           (\<forall>t\<in>set pre. f t < f s) \<and> (\<forall>t\<in>set post. f t \<le> f s)"
proof -
  let ?xs = "map (\<lambda>s. (s, f s)) ss"
  have "\<exists>p\<in>set ?xs. snd (None :: schema_def option, 0 :: real) < snd p"
  proof (rule ccontr)
    assume "\<not> ?thesis"
    then have "\<forall>p\<in>set ?xs. snd p \<le> snd (None :: schema_def option, 0 :: real)" by (auto simp: not_less)
    from better_keep[OF this] show False using assms by (simp add: bestMatch_def)
  qed
  from better_first[OF this] obtain pre s' sc post where
    split: "?xs = pre @ (s', sc) # post" and
    res: "foldl better (None, 0) ?xs = (Some s', sc)" and pos: "0 < sc" and
    pre: "\<forall>p\<in>set pre. snd p < sc" and post: "\<forall>p\<in>set post. snd p \<le> sc"
    by auto
  have eq: "s' = s" "sc = c" using res assms by (simp_all add: bestMatch_def)
  from split obtain ps qs where ss: "ss = ps @ s' # qs" and ps: "pre = map (\<lambda>s. (s, f s)) ps"
    and qs: "post = map (\<lambda>s. (s, f s)) qs" and sc: "sc = f s'"
    by (auto simp: map_eq_append_conv map_eq_Cons_conv)
  have "\<forall>t\<in>set ps. f t < f s" using pre ps sc eq by auto
  moreover have "\<forall>t\<in>set qs. f t \<le> f s" using post qs sc eq by auto
  ultimately show ?thesis using ss sc eq pos by blast
qed

text \<open>
  Claim C1, as the code has it. Detection reads only the first row. Reordering the
  schema collection does not change the outcome when one schema scores strictly higher
  than every other. The schema that wins stands in the collection before every other
  schema with the same score and scores strictly more than every schema before it:
  among equal top scores the earliest in collection order wins; \<open>updatedAt\<close> is not read.
\<close>

theorem detectSchema_earliest_top_score_wins:
  fixes score :: "'row \<Rightarrow> schema_def \<Rightarrow> real"
  shows "detectSchema score (r # rows) ss = detectSchema score [r] ss \<and>
    (mset ss' = mset ss \<and> (\<exists>s\<in>set ss. \<forall>t\<in>set ss. t \<noteq> s \<longrightarrow> score r t < score r s) \<longrightarrow>
       detectSchema score (r # rows) ss' = detectSchema score (r # rows) ss) \<and>
    (detectSchema score (r # rows) ss = Detected s c \<longrightarrow>
       (\<exists>pre post. ss = pre @ s # post \<and> c = score r s / 100 \<and> 30 < score r s \<and>
          (\<forall>t\<in>set pre. score r t < score r s) \<and> (\<forall>t\<in>set post. score r t \<le> score r s)))"
proof (intro conjI impI)
  show "detectSchema score (r # rows) ss = detectSchema score [r] ss"
    by (simp add: detectSchema_def)
next
  assume a: "mset ss' = mset ss \<and> (\<exists>s\<in>set ss. \<forall>t\<in>set ss. t \<noteq> s \<longrightarrow> score r t < score r s)"
  then obtain s where s: "s \<in> set ss" and top: "\<forall>t\<in>set ss. t \<noteq> s \<longrightarrow> score r t < score r s"
    by blast
  have sets: "set ss' = set ss" using a by (metis mset_eq_setD)
  have "bestMatch (map (\<lambda>s. (s, score r s)) ss') = bestMatch (map (\<lambda>s. (s, score r s)) ss)"
    using bestMatch_unique_top[of s ss "score r"] bestMatch_unique_top[of s ss' "score r"] s top sets
    by simp
  then show "detectSchema score (r # rows) ss' = detectSchema score (r # rows) ss"
    by (simp add: detectSchema_def)
next
  assume d: "detectSchema score (r # rows) ss = Detected s c"
  obtain b sc where best: "bestMatch (map (\<lambda>s. (s, score r s)) ss) = (b, sc)"
    by (cases "bestMatch (map (\<lambda>s. (s, score r s)) ss)")
  from d best have b: "b = Some s" and gt: "30 < sc" and c: "c = sc / 100"
    by (auto simp: detectSchema_def Let_def split: option.splits if_splits)
  from bestMatch_Some[OF best[unfolded b]] obtain pre post where
    "ss = pre @ s # post" "sc = score r s" "\<forall>t\<in>set pre. score r t < score r s"
    "\<forall>t\<in>set post. score r t \<le> score r s"
    by blast
  then show "\<exists>pre post. ss = pre @ s # post \<and> c = score r s / 100 \<and> 30 < score r s \<and>
          (\<forall>t\<in>set pre. score r t < score r s) \<and> (\<forall>t\<in>set post. score r t \<le> score r s)"
    using gt c by blast
qed

text \<open>
  Claim C1 as stated fails: with two schemas of equal score the earlier one of the
  collection wins, though the other was updated more recently, and swapping the two
  swaps the winner.
\<close>

theorem detectSchema_tie_counterexample:
  "detectSchema score_tie [()] [schema_older, schema_newer] = Detected schema_older (4 / 5) \<and>
   detectSchema score_tie [()] [schema_newer, schema_older] = Detected schema_newer (4 / 5) \<and>
   score_tie () schema_older = score_tie () schema_newer \<and>
   updatedAt schema_older = Some ''2024-01-01T00:00:00.000Z'' \<and>
   updatedAt schema_newer = Some ''2025-01-01T00:00:00.000Z'' \<and>
   ''2024-01-01T00:00:00.000Z'' < ''2025-01-01T00:00:00.000Z''"
  by (simp add: detectSchema_def bestMatch_def better_def score_tie_def schema_older_def
      schema_newer_def)

text \<open>The theorem of C1 at two schemas with distinct scores, in both orders.\<close>

theorem detectSchema_earliest_top_score_wins_witness:
  "detectSchema score_distinct [(), ()] [schema_older, schema_newer] = Detected schema_newer (9 / 10) \<and>
   detectSchema score_distinct [(), ()] [schema_newer, schema_older] = Detected schema_newer (9 / 10) \<and>
   detectSchema score_distinct [()] [schema_older, schema_newer] = Detected schema_newer (9 / 10)"
proof -
  have d: "detectSchema score_distinct [(), ()] [schema_older, schema_newer] = Detected schema_newer (9 / 10)"
    by (simp add: detectSchema_def bestMatch_def better_def score_distinct_def schema_older_def
        schema_newer_def)
  have u: "mset [schema_newer, schema_older] = mset [schema_older, schema_newer] \<and>
     (\<exists>s\<in>set [schema_older, schema_newer]. \<forall>t\<in>set [schema_older, schema_newer].
        t \<noteq> s \<longrightarrow> score_distinct () t < score_distinct () s)"
    by (simp add: score_distinct_def schema_older_def schema_newer_def)
  note t = detectSchema_earliest_top_score_wins[of score_distinct "()" "[()]"
      "[schema_older, schema_newer]" "[schema_newer, schema_older]" schema_newer "9 / 10"]
  from t u d show ?thesis by simp
qed

section \<open>The generic analytics engine: results\<close>

subsection \<open>Sorting and grouping\<close>

lemma mset_insert_by: "mset (insert_by cmp x ys) = add_mset x (mset ys)"
  by (induction ys) auto

lemma mset_sort_js: "mset (sort_js cmp xs) = mset xs"
  by (induction xs) (auto simp: sort_js_def mset_insert_by)

lemma set_sort_js: "set (sort_js cmp xs) = set xs"
  by (metis mset_sort_js set_mset_mset)

lemma length_sort_js: "length (sort_js cmp xs) = length xs"
  by (metis mset_sort_js size_mset)

lemma sum_list_sort_js:
  fixes f :: "'a \<Rightarrow> 'b::comm_monoid_add"
  shows "sum_list (map f (sort_js cmp xs)) = sum_list (map f xs)"
proof -
  have "mset (map f (sort_js cmp xs)) = mset (map f xs)"
    by (simp add: mset_sort_js)
  then show ?thesis by (metis sum_mset_sum_list)
qed

lemma group_push_total:
  "sum_list (map (\<lambda>(k, cs). length cs) (group_push key call g)) =
   Suc (sum_list (map (\<lambda>(k, cs). length cs) g))"
  by (induction g) auto

lemma group_calls_snoc:
  "group_calls key (calls @ [call]) =
     (case key call of None \<Rightarrow> group_calls key calls
      | Some k \<Rightarrow> group_push k call (group_calls key calls))"
  by (simp add: group_calls_def split: option.splits)

lemma group_calls_total:
  "sum_list (map (\<lambda>(k, cs). length cs) (group_calls key calls)) =
   length (filter (\<lambda>call. key call \<noteq> None) calls)"
proof (induction calls rule: rev_induct)
  case Nil
  show ?case by (simp add: group_calls_def)
next
  case (snoc call calls)
  then show ?case
    by (cases "key call") (simp_all add: group_calls_snoc group_push_total)
qed

text \<open>Every group holds, in order, exactly the calls that have its key, and is not empty.\<close>

lemma map_fst_group_push:
  "map fst (group_push key call g) =
     (if key \<in> set (map fst g) then map fst g else map fst g @ [key])"
  by (induction g) (force+)

lemma group_push_keys: "fst ` set (group_push key call g) = insert key (fst ` set g)"
proof -
  have "set (map fst (group_push key call g)) = insert key (set (map fst g))"
    unfolding map_fst_group_push by auto
  then show ?thesis by simp
qed

lemma group_push_distinct: "distinct (map fst g) \<Longrightarrow> distinct (map fst (group_push key call g))"
proof (induction g)
  case Nil
  show ?case by simp
next
  case (Cons p g)
  obtain k cs where p: "p = (k, cs)" by (cases p)
  show ?case
  proof (cases "k = key")
    case True
    then show ?thesis using Cons.prems p by simp
  next
    case False
    have "k \<notin> fst ` set (group_push key call g)"
      using Cons.prems p False by (simp add: group_push_keys)
    then show ?thesis using Cons p False by simp
  qed
qed

lemma group_push_members:
  "(k, cs) \<in> set (group_push key call g) \<Longrightarrow> distinct (map fst g) \<Longrightarrow>
   (k \<noteq> key \<and> (k, cs) \<in> set g) \<or>
   (k = key \<and> ((\<exists>cs'. (k, cs') \<in> set g \<and> cs = cs' @ [call]) \<or> (k \<notin> fst ` set g \<and> cs = [call])))"
proof (induction g)
  case Nil
  then show ?case by auto
next
  case (Cons p g)
  obtain k' cs' where p: "p = (k', cs')" by (cases p)
  show ?case
  proof (cases "k' = key")
    case True
    then show ?thesis using Cons.prems p by (auto simp: image_iff)
  next
    case False
    from Cons.prems p False have "(k, cs) = (k', cs') \<or> (k, cs) \<in> set (group_push key call g)"
      by simp
    then show ?thesis
    proof
      assume "(k, cs) = (k', cs')"
      then show ?thesis using False p by auto
    next
      assume m: "(k, cs) \<in> set (group_push key call g)"
      have "distinct (map fst g)" using Cons.prems by simp
      from Cons.IH[OF m this] show ?thesis using False p by auto
    qed
  qed
qed

lemma group_calls_invariant:
  "distinct (map fst (group_calls key calls)) \<and>
   (\<forall>(k, cs)\<in>set (group_calls key calls).
      cs = filter (\<lambda>call. key call = Some k) calls \<and> cs \<noteq> []) \<and>
   fst ` set (group_calls key calls) = {k. \<exists>call\<in>set calls. key call = Some k}"
proof (induction calls rule: rev_induct)
  case Nil
  show ?case by (simp add: group_calls_def)
next
  case (snoc call calls)
  let ?g = "group_calls key calls"
  from snoc have dist: "distinct (map fst ?g)"
    and mem: "\<And>k cs. (k, cs) \<in> set ?g \<Longrightarrow> cs = filter (\<lambda>call. key call = Some k) calls \<and> cs \<noteq> []"
    and keys: "fst ` set ?g = {k. \<exists>call\<in>set calls. key call = Some k}"
    by auto
  show ?case
  proof (cases "key call")
    case None
    have "\<And>k. filter (\<lambda>c. key c = Some k) (calls @ [call]) = filter (\<lambda>c. key c = Some k) calls"
      using None by simp
    moreover have "{k. \<exists>c\<in>set (calls @ [call]). key c = Some k} = {k. \<exists>c\<in>set calls. key c = Some k}"
      using None by auto
    ultimately show ?thesis using None dist mem keys
      by (auto simp: group_calls_snoc simp del: filter_append)
  next
    case (Some kc)
    have g: "group_calls key (calls @ [call]) = group_push kc call ?g"
      using Some by (simp add: group_calls_snoc)
    have d: "distinct (map fst (group_push kc call ?g))"
      using dist by (rule group_push_distinct)
    have m: "cs = filter (\<lambda>c. key c = Some k) (calls @ [call]) \<and> cs \<noteq> []"
      if "(k, cs) \<in> set (group_push kc call ?g)" for k cs
    proof -
      from group_push_members[OF that dist]
      consider "k \<noteq> kc" "(k, cs) \<in> set ?g"
        | cs' where "k = kc" "(k, cs') \<in> set ?g" "cs = cs' @ [call]"
        | "k = kc" "k \<notin> fst ` set ?g" "cs = [call]"
        by blast
      then show ?thesis
      proof cases
        case 1
        from mem[OF 1(2)] have "cs = filter (\<lambda>c. key c = Some k) calls" "cs \<noteq> []" by auto
        moreover have "key call \<noteq> Some k" using 1(1) Some by simp
        ultimately show ?thesis by simp
      next
        case 2
        from mem[OF 2(2)] have "cs' = filter (\<lambda>c. key c = Some k) calls" by auto
        then show ?thesis using 2 Some by simp
      next
        case 3
        then have "filter (\<lambda>c. key c = Some k) calls = []"
          using keys by (auto simp: filter_empty_conv)
        then show ?thesis using 3 Some by simp
      qed
    qed
    have k: "fst ` set (group_push kc call ?g) = {k. \<exists>c\<in>set (calls @ [call]). key c = Some k}"
      using keys Some by (auto simp: group_push_keys)
    show ?thesis unfolding g using d m k by blast
  qed
qed

lemma group_calls_member:
  assumes "(k, cs) \<in> set (group_calls key calls)"
  shows "cs = filter (\<lambda>call. key call = Some k) calls" and "cs \<noteq> []"
  using group_calls_invariant[of key calls] assms by auto

subsection \<open>Counts and percentages of a grouping\<close>

lemma aggregateByDimension_member:
  assumes "r \<in> set (aggregateByDimension B calls schema view)"
  shows "\<exists>groupCalls. (gr_dimension r, groupCalls) \<in> set (group_calls (dimension_key B (dimensionField view)) calls) \<and>
           gr_measure r = group_measure B schema view groupCalls \<and>
           gr_count r = length groupCalls \<and>
           gr_percentage r = (if length calls > 0 then real (length groupCalls) / real (length calls) * 100 else 0)"
  using assms
  by (auto simp: aggregateByDimension_def Let_def set_sort_js split: option.splits)

lemma sum_list_percentages:
  "sum_list (map (\<lambda>n. real n / t * 100) ns) = real (sum_list ns) / t * 100"
  by (induction ns) (simp_all add: add_divide_distrib distrib_right)

text \<open>
  Claim C2, as the code has it. When the dimension field resolves in the schema and
  every record carries metadata, the group counts sum to the number of input records;
  when the list is also non-empty, the group percentages sum to 100 (exactly, in exact
  arithmetic).
\<close>

theorem aggregateByDimension_counts_and_percentages:
  assumes "find_field schema (Some (dimensionField view)) \<noteq> None"
    and "\<forall>call\<in>set calls. metadata call \<noteq> None"
  shows "sum_list (map gr_count (aggregateByDimension B calls schema view)) = length calls \<and>
     (calls \<noteq> [] \<longrightarrow> sum_list (map gr_percentage (aggregateByDimension B calls schema view)) = 100)"
proof -
  let ?key = "dimension_key B (dimensionField view)"
  let ?groups = "group_calls ?key calls"
  let ?lens = "map (\<lambda>(k, cs). length cs) ?groups"
  have keyed: "filter (\<lambda>call. ?key call \<noteq> None) calls = calls"
    using assms(2) by (auto simp: dimension_key_def filter_id_conv split: option.splits)
  have total: "sum_list ?lens = length calls"
    using group_calls_total[of ?key calls] keyed by simp
  have counts: "map gr_count (aggregateByDimension B calls schema view) =
      map gr_count (sort_js (\<lambda>a b. jsub (gr_measure b) (gr_measure a))
        (map (\<lambda>(dimensionValue, groupCalls).
           \<lparr>gr_dimension = dimensionValue, gr_measure = group_measure B schema view groupCalls,
            gr_count = length groupCalls,
            gr_percentage = (if length calls > 0 then real (length groupCalls) / real (length calls) * 100 else 0)\<rparr>)
         ?groups))"
    using assms(1) by (auto simp: aggregateByDimension_def Let_def)
  have c: "sum_list (map gr_count (aggregateByDimension B calls schema view)) = length calls"
    unfolding counts sum_list_sort_js using total
    by (simp add: comp_def case_prod_unfold)
  have p: "sum_list (map gr_percentage (aggregateByDimension B calls schema view)) = 100"
    if "calls \<noteq> []"
  proof -
    have "sum_list (map gr_percentage (aggregateByDimension B calls schema view)) =
        sum_list (map (\<lambda>n. real n / real (length calls) * 100) ?lens)"
      using assms(1) that
      by (auto simp: aggregateByDimension_def Let_def sum_list_sort_js comp_def case_prod_unfold)
    also have "\<dots> = real (sum_list ?lens) / real (length calls) * 100"
      by (rule sum_list_percentages)
    also have "\<dots> = 100" using total that by simp
    finally show ?thesis .
  qed
  show ?thesis using c p by blast
qed

text \<open>
  Claim C2 as stated fails on the empty record list: the dimension field resolves, no
  group is returned, and the percentages sum to 0, not to 100. A record without metadata
  is skipped by the grouping but counted in the total: of two records, one without
  metadata, one is counted and the percentages sum to 50.
\<close>

theorem aggregateByDimension_empty_counterexample:
  "find_field example_schema (Some (dimensionField count_view)) \<noteq> None \<and>
   aggregateByDimension no_builtins [] example_schema count_view = [] \<and>
   sum_list (map gr_percentage (aggregateByDimension no_builtins [] example_schema count_view)) = 0 \<and>
   \<not> \<bar>sum_list (map gr_percentage (aggregateByDimension no_builtins [] example_schema count_view)) - 100\<bar> \<le> 1 \<and>
   aggregateByDimension no_builtins calls_without_metadata example_schema count_view =
     [\<lparr>gr_dimension = ''A'', gr_measure = Fin 1, gr_count = 1, gr_percentage = 50\<rparr>] \<and>
   length calls_without_metadata = 2"
  by (simp add: aggregateByDimension_def example_schema_def count_view_def mk_field_def
      group_calls_def sort_js_def calls_without_metadata_def mk_call_def dimension_key_def
      get_prop_def group_measure_def)

lemma example_dimension_found: "find_field example_schema (Some (dimensionField count_view)) \<noteq> None"
  by (simp add: example_schema_def count_view_def mk_field_def)

lemma calls_AAB_metadata: "\<forall>call\<in>set calls_AAB. metadata call \<noteq> None"
  by (simp add: calls_AAB_def mk_call_def)

text \<open>
  The theorem of C2 at the records A, A, B.
\<close>

theorem aggregateByDimension_counts_and_percentages_witness:
  "sum_list (map gr_count (aggregateByDimension no_builtins calls_AAB example_schema count_view)) = 3 \<and>
   sum_list (map gr_percentage (aggregateByDimension no_builtins calls_AAB example_schema count_view)) = 100"
  using aggregateByDimension_counts_and_percentages[OF example_dimension_found calls_AAB_metadata, of no_builtins]
  by (simp add: calls_AAB_def)

subsection \<open>Percentages are not rounded\<close>

lemma aggregateByDimension_nonempty:
  assumes "r \<in> set (aggregateByDimension B calls schema view)"
  shows "calls \<noteq> []"
proof
  assume "calls = []"
  then have "aggregateByDimension B calls schema view = []"
    by (simp add: aggregateByDimension_def group_calls_def sort_js_def split: option.splits)
  then show False using assms by simp
qed

lemma set_slice0: "set (slice0 limit xs) \<subseteq> set xs"
  by (auto simp: slice0_def Let_def dest: in_set_takeD)

text \<open>
  Claim C4, as the code has it. No percentage is rounded: each percentage of
  \<^verbatim>\<open>aggregateByDimension\<close>, \<^verbatim>\<open>generateHistogram\<close> and \<^verbatim>\<open>getTopValues\<close> is the quotient
  count / total * 100 itself, and for the dimension values A, A, B with a count view the
  result is A with measure 2, count 2 and percentage 200/3, then B with measure 1,
  count 1 and percentage 100/3.
\<close>

theorem percentages_are_unrounded_quotients:
  "(r \<in> set (aggregateByDimension B calls schema view) \<longrightarrow>
      gr_percentage r = real (gr_count r) / real (length calls) * 100) \<and>
   (generateHistogram B calls fid buckets = Inr hs \<and> h \<in> set hs \<longrightarrow>
      (\<exists>vs. numeric_values B calls fid = Inr vs \<and>
         hb_percentage h = real (hb_count h) / real (length vs) * 100)) \<and>
   (t \<in> set (getTopValues B calls fid limit) \<longrightarrow>
      tv_percentage t = real (tv_count t) / real (length calls) * 100) \<and>
   map (\<lambda>r. (gr_dimension r, gr_measure r, gr_count r, gr_percentage r))
     (aggregateByDimension B calls_AAB example_schema count_view) =
     [(''A'', Fin 2, 2, 200 / 3), (''B'', Fin 1, 1, 100 / 3)]"
proof (intro conjI impI)
  assume r: "r \<in> set (aggregateByDimension B calls schema view)"
  from aggregateByDimension_nonempty[OF r] have "length calls > 0" by simp
  with aggregateByDimension_member[OF r]
  show "gr_percentage r = real (gr_count r) / real (length calls) * 100" by auto
next
  assume "generateHistogram B calls fid buckets = Inr hs \<and> h \<in> set hs"
  then show "\<exists>vs. numeric_values B calls fid = Inr vs \<and>
         hb_percentage h = real (hb_count h) / real (length vs) * 100"
    by (auto simp: generateHistogram_def Let_def split: sum.splits list.splits)
next
  assume "t \<in> set (getTopValues B calls fid limit)"
  then have "t \<in> set (map (\<lambda>(value, count).
                  \<lparr>tv_value = value, tv_count = count,
                   tv_percentage = real count / real (length calls) * 100\<rparr>)
                (foldl (\<lambda>m call. case dimension_key B fid call of None \<Rightarrow> m | Some value \<Rightarrow> count_push value m)
              [] calls))"
    using set_slice0 by (fastforce simp: getTopValues_def Let_def set_sort_js)
  then show "tv_percentage t = real (tv_count t) / real (length calls) * 100" by auto
next
  show "map (\<lambda>r. (gr_dimension r, gr_measure r, gr_count r, gr_percentage r))
     (aggregateByDimension B calls_AAB example_schema count_view) =
     [(''A'', Fin 2, 2, 200 / 3), (''B'', Fin 1, 1, 100 / 3)]"
    by (simp add: aggregateByDimension_def calls_AAB_def example_schema_def count_view_def
        mk_call_def mk_field_def group_calls_def dimension_key_def get_prop_def group_measure_def
        sort_js_def jsub_def)
qed

text \<open>
  Claim C4 as stated fails: for the dimension values A, A, B the percentages are 200/3
  and 100/3, not 66.7 and 33.3.
\<close>

theorem percentage_rounding_counterexample:
  "map gr_percentage (aggregateByDimension no_builtins calls_AAB example_schema count_view) =
     [200 / 3, 100 / 3] \<and>
   map gr_percentage (aggregateByDimension no_builtins calls_AAB example_schema count_view) \<noteq>
     [667 / 10, 333 / 10]"
  by (simp add: aggregateByDimension_def calls_AAB_def example_schema_def count_view_def
        mk_call_def mk_field_def group_calls_def dimension_key_def get_prop_def group_measure_def
        sort_js_def jsub_def)

lemma aggregate_AAB:
  "aggregateByDimension no_builtins calls_AAB example_schema count_view =
     [\<lparr>gr_dimension = ''A'', gr_measure = Fin 2, gr_count = 2, gr_percentage = 200 / 3\<rparr>,
      \<lparr>gr_dimension = ''B'', gr_measure = Fin 1, gr_count = 1, gr_percentage = 100 / 3\<rparr>]"
  by (simp add: aggregateByDimension_def calls_AAB_def example_schema_def count_view_def
        mk_call_def mk_field_def group_calls_def dimension_key_def get_prop_def group_measure_def
        sort_js_def jsub_def)

lemma values_1_10:
  "numeric_values B calls_1_10 ''amount'' = Inr [1, 2, 3, 4, 5, 6, 7, 8, 9, 10]"
  by (simp add: numeric_values_def calls_1_10_def mk_call_def metadata_value_def
      get_prop_def List.map_filter_def upt_rec[of _ "numeral n" for n] upt_rec[of "Suc 0"])

lemma histogram_1_10:
  "map_sum id (map hb_count) (generateHistogram B calls_1_10 ''amount'' 5) = Inr [2, 2, 2, 2, 2]"
  by (simp add: generateHistogram_def values_1_10 upt_rec[of _ "numeral n" for n] upt_rec[of 0]
      upt_rec[of "Suc 0"] in_bucket_def rangeStart_def rangeEnd_def Let_def)

lemma top_AAB:
  "getTopValues no_builtins calls_AAB ''category'' 10 =
     [\<lparr>tv_value = ''A'', tv_count = 2, tv_percentage = 200 / 3\<rparr>,
      \<lparr>tv_value = ''B'', tv_count = 1, tv_percentage = 100 / 3\<rparr>]"
  by (simp add: getTopValues_def calls_AAB_def mk_call_def dimension_key_def get_prop_def
        sort_js_def slice0_def)

text \<open>
  The theorem of C4 at the first group of A, A, B, the first bucket of the histogram
  over 1 to 10 and the first of the top values of A, A, B.
\<close>

theorem percentages_are_unrounded_quotients_witness:
  "gr_percentage (hd (aggregateByDimension no_builtins calls_AAB example_schema count_view)) = 2 / 3 * 100 \<and>
   (\<exists>hs. generateHistogram no_builtins calls_1_10 ''amount'' 5 = Inr hs \<and> hs \<noteq> [] \<and>
      hb_percentage (hd hs) = 2 / 10 * 100) \<and>
   tv_percentage (hd (getTopValues no_builtins calls_AAB ''category'' 10)) = 2 / 3 * 100"
proof -
  obtain hs where hs: "generateHistogram no_builtins calls_1_10 ''amount'' 5 = Inr hs"
    and cnt: "map hb_count hs = [2, 2, 2, 2, 2]"
    using histogram_1_10[of no_builtins]
    by (cases "generateHistogram no_builtins calls_1_10 ''amount'' 5") auto
  from cnt have ne: "hs \<noteq> []" and c: "hb_count (hd hs) = 2" by auto
  note t1 = percentages_are_unrounded_quotients[where B = no_builtins and calls = calls_AAB
      and schema = example_schema and view = count_view
      and r = "hd (aggregateByDimension no_builtins calls_AAB example_schema count_view)"]
  note t2 = percentages_are_unrounded_quotients[where B = no_builtins and calls = calls_1_10
      and fid = "''amount''" and buckets = 5 and hs = hs and h = "hd hs"]
  note t3 = percentages_are_unrounded_quotients[where B = no_builtins and calls = calls_AAB
      and fid = "''category''" and limit = 10
      and t = "hd (getTopValues no_builtins calls_AAB ''category'' 10)"]
  have 1: "hd (aggregateByDimension no_builtins calls_AAB example_schema count_view)
      \<in> set (aggregateByDimension no_builtins calls_AAB example_schema count_view)"
    by (simp add: aggregate_AAB)
  have 3: "hd (getTopValues no_builtins calls_AAB ''category'' 10)
      \<in> set (getTopValues no_builtins calls_AAB ''category'' 10)"
    by (simp add: top_AAB)
  have 2: "generateHistogram no_builtins calls_1_10 ''amount'' 5 = Inr hs \<and> hd hs \<in> set hs"
    using hs ne by simp
  have len: "length calls_AAB = 3" by (simp add: calls_AAB_def)
  from t1 1 have "gr_percentage (hd (aggregateByDimension no_builtins calls_AAB example_schema count_view)) =
      real (gr_count (hd (aggregateByDimension no_builtins calls_AAB example_schema count_view))) /
        real (length calls_AAB) * 100"
    by blast
  moreover have "gr_count (hd (aggregateByDimension no_builtins calls_AAB example_schema count_view)) = 2"
    by (simp add: aggregate_AAB)
  ultimately have a: "gr_percentage (hd (aggregateByDimension no_builtins calls_AAB example_schema count_view)) = 2 / 3 * 100"
    using len by simp
  from t2 2 have "\<exists>vs. numeric_values no_builtins calls_1_10 ''amount'' = Inr vs \<and>
      hb_percentage (hd hs) = real (hb_count (hd hs)) / real (length vs) * 100"
    by blast
  then have b: "hb_percentage (hd hs) = 2 / 10 * 100"
    using c by (auto simp: values_1_10)
  from t3 3 have "tv_percentage (hd (getTopValues no_builtins calls_AAB ''category'' 10)) =
      real (tv_count (hd (getTopValues no_builtins calls_AAB ''category'' 10))) /
        real (length calls_AAB) * 100"
    by blast
  moreover have "tv_count (hd (getTopValues no_builtins calls_AAB ''category'' 10)) = 2"
    by (simp add: top_AAB)
  ultimately have d: "tv_percentage (hd (getTopValues no_builtins calls_AAB ''category'' 10)) = 2 / 3 * 100"
    using len by simp
  show ?thesis using a b d hs ne by blast
qed

subsection \<open>Minimum and maximum\<close>

lemma jmin2_cases: "a \<noteq> NaN \<Longrightarrow> b \<noteq> NaN \<Longrightarrow> jmin2 a b = a \<or> jmin2 a b = b"
  by (cases a; cases b) auto

lemma jmax2_cases: "a \<noteq> NaN \<Longrightarrow> b \<noteq> NaN \<Longrightarrow> jmax2 a b = a \<or> jmax2 a b = b"
  by (cases a; cases b) auto

lemma Math_min_member: "\<forall>x\<in>set xs. x \<noteq> NaN \<Longrightarrow> Math_min xs = PInf \<or> Math_min xs \<in> set xs"
proof (induction xs)
  case Nil
  show ?case by (simp add: Math_min_def)
next
  case (Cons x xs)
  then have ih: "Math_min xs = PInf \<or> Math_min xs \<in> set xs" and x: "x \<noteq> NaN" by auto
  then have "Math_min xs \<noteq> NaN" using Cons.prems by auto
  from jmin2_cases[OF x this] have "jmin2 x (Math_min xs) = x \<or> jmin2 x (Math_min xs) = Math_min xs" .
  then show ?case using ih by (auto simp: Math_min_def)
qed

lemma Math_max_member: "\<forall>x\<in>set xs. x \<noteq> NaN \<Longrightarrow> Math_max xs = NInf \<or> Math_max xs \<in> set xs"
proof (induction xs)
  case Nil
  show ?case by (simp add: Math_max_def)
next
  case (Cons x xs)
  then have ih: "Math_max xs = NInf \<or> Math_max xs \<in> set xs" and x: "x \<noteq> NaN" by auto
  then have "Math_max xs \<noteq> NaN" using Cons.prems by auto
  from jmax2_cases[OF x this] have "jmax2 x (Math_max xs) = x \<or> jmax2 x (Math_max xs) = Math_max xs" .
  then show ?case using ih by (auto simp: Math_max_def)
qed

lemma Math_min_all_PInf: "\<forall>x\<in>set xs. x = PInf \<Longrightarrow> Math_min xs = PInf"
  by (induction xs) (auto simp: Math_min_def)

lemma Math_max_all_NInf: "\<forall>x\<in>set xs. x = NInf \<Longrightarrow> Math_max xs = NInf"
  by (induction xs) (auto simp: Math_max_def)

lemma num_or_not_zero: "d \<noteq> NaN \<Longrightarrow> d \<noteq> Fin 0 \<Longrightarrow> num_or n d \<noteq> NaN \<and> num_or n d \<noteq> Fin 0"
  by (simp add: num_or_def)

text \<open>
  Claim C10. With a measure field that resolves in the schema, a value whose number is
  0 or NaN (missing and non-numeric values read as NaN) contributes \<open>PInf\<close> under
  \<open>AggMin\<close> and \<open>NInf\<close> under \<open>AggMax\<close>. The measure of a group is the minimum (maximum)
  of the contributions of its records; it is never 0 and never NaN, and it is \<open>PInf\<close>
  (\<open>NInf\<close>) when every record of the group has such a value.
\<close>

theorem aggregateByDimension_min_max_skip_zero:
  assumes "find_field schema (Some mf) \<noteq> None"
    and "measureField view = Some mf"
    and "r \<in> set (aggregateByDimension B calls schema view)"
  shows "(n = Fin 0 \<or> n = NaN \<longrightarrow> num_or n PInf = PInf \<and> num_or n NInf = NInf) \<and>
    (aggregation view = AggMin \<longrightarrow>
       gr_measure r =
         Math_min (map (\<lambda>call. num_or (Number_js B (metadata_value call mf)) PInf)
           (members_of B (dimensionField view) calls (gr_dimension r))) \<and>
       gr_measure r \<noteq> Fin 0 \<and> gr_measure r \<noteq> NaN \<and>
       ((\<forall>call\<in>set (members_of B (dimensionField view) calls (gr_dimension r)).
           Number_js B (metadata_value call mf) = Fin 0 \<or>
           Number_js B (metadata_value call mf) = NaN) \<longrightarrow> gr_measure r = PInf)) \<and>
    (aggregation view = AggMax \<longrightarrow>
       gr_measure r =
         Math_max (map (\<lambda>call. num_or (Number_js B (metadata_value call mf)) NInf)
           (members_of B (dimensionField view) calls (gr_dimension r))) \<and>
       gr_measure r \<noteq> Fin 0 \<and> gr_measure r \<noteq> NaN \<and>
       ((\<forall>call\<in>set (members_of B (dimensionField view) calls (gr_dimension r)).
           Number_js B (metadata_value call mf) = Fin 0 \<or>
           Number_js B (metadata_value call mf) = NaN) \<longrightarrow> gr_measure r = NInf))"
proof -
  let ?members = "members_of B (dimensionField view) calls (gr_dimension r)"
  from aggregateByDimension_member[OF assms(3)] obtain groupCalls where
    g: "(gr_dimension r, groupCalls) \<in> set (group_calls (dimension_key B (dimensionField view)) calls)"
    and m: "gr_measure r = group_measure B schema view groupCalls"
    by blast
  from group_calls_member(1)[OF g] have gc: "groupCalls = ?members"
    by (simp add: members_of_def)
  have meas: "gr_measure r = aggregate B (aggregation view) mf ?members"
    using m gc assms(1,2) by (auto simp: group_measure_def split: option.splits)
  let ?lo = "map (\<lambda>call. num_or (Number_js B (metadata_value call mf)) PInf) ?members"
  let ?hi = "map (\<lambda>call. num_or (Number_js B (metadata_value call mf)) NInf) ?members"
  have lo: "\<forall>x\<in>set ?lo. x \<noteq> NaN \<and> x \<noteq> Fin 0" using num_or_not_zero[of PInf] by auto
  have hi: "\<forall>x\<in>set ?hi. x \<noteq> NaN \<and> x \<noteq> Fin 0" using num_or_not_zero[of NInf] by auto
  have min_ok: "Math_min ?lo \<noteq> Fin 0 \<and> Math_min ?lo \<noteq> NaN"
    using Math_min_member[of ?lo] lo by (metis jsnum.distinct(1) jsnum.distinct(9))
  have max_ok: "Math_max ?hi \<noteq> Fin 0 \<and> Math_max ?hi \<noteq> NaN"
    using Math_max_member[of ?hi] hi by (metis jsnum.distinct(3) jsnum.distinct(11))
  have min_inf: "Math_min ?lo = PInf"
    if "\<forall>call\<in>set ?members. Number_js B (metadata_value call mf) = Fin 0 \<or>
           Number_js B (metadata_value call mf) = NaN"
    using that by (intro Math_min_all_PInf) (auto simp: num_or_def)
  have max_inf: "Math_max ?hi = NInf"
    if "\<forall>call\<in>set ?members. Number_js B (metadata_value call mf) = Fin 0 \<or>
           Number_js B (metadata_value call mf) = NaN"
    using that by (intro Math_max_all_NInf) (auto simp: num_or_def)
  have c1: "n = Fin 0 \<or> n = NaN \<longrightarrow> num_or n PInf = PInf \<and> num_or n NInf = NInf"
    by (auto simp: num_or_def)
  show ?thesis using c1 meas min_ok max_ok min_inf max_inf by simp
qed

lemma example_fields:
  "find_field example_schema (Some ''category'') = Some (mk_field ''category'' ''text'')"
  "find_field example_schema (Some ''amount'') = Some (mk_field ''amount'' ''number'')"
  "find_field example_schema (Some ''score'') = Some (mk_field ''score'' ''number'')"
  by (simp_all add: example_schema_def mk_field_def)

lemma aggregate_min_example:
  "aggregateByDimension no_builtins calls_min example_schema min_view =
     [\<lparr>gr_dimension = ''B'', gr_measure = PInf, gr_count = 2, gr_percentage = 40\<rparr>,
      \<lparr>gr_dimension = ''A'', gr_measure = Fin 5, gr_count = 3, gr_percentage = 60\<rparr>]"
  by (simp add: aggregateByDimension_def calls_min_def example_schema_def min_view_def
        mk_call_def mk_field_def group_calls_def dimension_key_def get_prop_def group_measure_def
        sort_js_def jsub_def Math_min_def metadata_value_def num_or_def)

lemma aggregate_max_example:
  "aggregateByDimension no_builtins calls_min example_schema max_view =
     [\<lparr>gr_dimension = ''A'', gr_measure = Fin 5, gr_count = 3, gr_percentage = 60\<rparr>,
      \<lparr>gr_dimension = ''B'', gr_measure = NInf, gr_count = 2, gr_percentage = 40\<rparr>]"
  by (simp add: aggregateByDimension_def calls_min_def example_schema_def max_view_def
        mk_call_def mk_field_def group_calls_def dimension_key_def get_prop_def group_measure_def
        sort_js_def jsub_def Math_max_def metadata_value_def num_or_def)

lemma members_B_zero_or_missing:
  "\<forall>call\<in>set (members_of no_builtins ''category'' calls_min ''B'').
     Number_js no_builtins (metadata_value call ''amount'') = Fin 0 \<or>
     Number_js no_builtins (metadata_value call ''amount'') = NaN"
  by (simp add: members_of_def calls_min_def mk_call_def dimension_key_def get_prop_def
      metadata_value_def)

text \<open>
  The theorem of C10 at a group with the amounts 0, 5 and none, whose minimum and
  maximum are 5, and a group with the amounts 0 and none, whose minimum is \<open>PInf\<close> and
  whose maximum is \<open>NInf\<close>.
\<close>

theorem aggregateByDimension_min_max_skip_zero_witness:
  "aggregateByDimension no_builtins calls_min example_schema min_view =
     [\<lparr>gr_dimension = ''B'', gr_measure = PInf, gr_count = 2, gr_percentage = 40\<rparr>,
      \<lparr>gr_dimension = ''A'', gr_measure = Fin 5, gr_count = 3, gr_percentage = 60\<rparr>] \<and>
   aggregateByDimension no_builtins calls_min example_schema max_view =
     [\<lparr>gr_dimension = ''A'', gr_measure = Fin 5, gr_count = 3, gr_percentage = 60\<rparr>,
      \<lparr>gr_dimension = ''B'', gr_measure = NInf, gr_count = 2, gr_percentage = 40\<rparr>] \<and>
   gr_measure (hd (aggregateByDimension no_builtins calls_min example_schema min_view)) = PInf \<and>
   gr_measure (last (aggregateByDimension no_builtins calls_min example_schema max_view)) = NInf"
proof -
  let ?lo = "hd (aggregateByDimension no_builtins calls_min example_schema min_view)"
  let ?hi = "last (aggregateByDimension no_builtins calls_min example_schema max_view)"
  have f: "find_field example_schema (Some ''amount'') \<noteq> None"
    by (simp add: example_schema_def mk_field_def)
  have lo: "?lo \<in> set (aggregateByDimension no_builtins calls_min example_schema min_view)"
    and lo_dim: "gr_dimension ?lo = ''B''"
    by (simp_all add: aggregate_min_example)
  have hi: "?hi \<in> set (aggregateByDimension no_builtins calls_min example_schema max_view)"
    and hi_dim: "gr_dimension ?hi = ''B''"
    by (simp_all add: aggregate_max_example)
  have v: "measureField min_view = Some ''amount''" "aggregation min_view = AggMin"
    "dimensionField min_view = ''category''"
    "measureField max_view = Some ''amount''" "aggregation max_view = AggMax"
    "dimensionField max_view = ''category''"
    by (simp_all add: min_view_def max_view_def)
  from aggregateByDimension_min_max_skip_zero[OF f v(1) lo] members_B_zero_or_missing
  have 1: "gr_measure ?lo = PInf" unfolding v lo_dim by blast
  from aggregateByDimension_min_max_skip_zero[OF f v(4) hi] members_B_zero_or_missing
  have 2: "gr_measure ?hi = NInf" unfolding v hi_dim by blast
  show ?thesis using 1 2 aggregate_min_example aggregate_max_example by simp
qed

subsection \<open>Correlation\<close>

lemma reduce_sum_sum_list: "reduce_sum f xs = sum_list (map f xs)"
proof -
  have "foldl (\<lambda>sum p. sum + f p) a xs = a + sum_list (map f xs)" for a
    by (induction xs arbitrary: a) (simp_all add: add.assoc)
  then show ?thesis by (simp add: reduce_sum_def)
qed

lemma numeric_pair_swap:
  "numeric_pair B f2 f1 call = map_option prod.swap (numeric_pair B f1 f2 call)"
  by (simp add: numeric_pair_def split: option.splits)

lemma numeric_pairs_swap:
  "numeric_pairs B calls f2 f1 = map prod.swap (numeric_pairs B calls f1 f2)"
proof (induction calls)
  case Nil
  show ?case by (simp add: numeric_pairs_def)
next
  case (Cons call calls)
  then show ?case
    by (cases "numeric_pair B f1 f2 call") (simp_all add: numeric_pairs_def numeric_pair_swap[of B f2 f1])
qed

lemma reduce_sum_swap:
  "reduce_sum fst (map prod.swap ps) = reduce_sum snd ps"
  "reduce_sum snd (map prod.swap ps) = reduce_sum fst ps"
  "reduce_sum (\<lambda>(x, y). x * x) (map prod.swap ps) = reduce_sum (\<lambda>(x, y). y * y) ps"
  "reduce_sum (\<lambda>(x, y). y * y) (map prod.swap ps) = reduce_sum (\<lambda>(x, y). x * x) ps"
  "reduce_sum (\<lambda>(x, y). x * y) (map prod.swap ps) = reduce_sum (\<lambda>(x, y). x * y) ps"
  by (simp_all add: reduce_sum_sum_list comp_def case_prod_unfold mult.commute)

lemma pearson_numerator_swap: "pearson_numerator (map prod.swap ps) = pearson_numerator ps"
  by (simp add: pearson_numerator_def Let_def reduce_sum_swap mult.commute)

lemma pearson_denominator_swap: "pearson_denominator (map prod.swap ps) = pearson_denominator ps"
proof -
  let ?n = "real (length ps)"
  let ?a = "?n * reduce_sum (\<lambda>(x, y). x * x) ps - reduce_sum fst ps * reduce_sum fst ps"
  let ?b = "?n * reduce_sum (\<lambda>(x, y). y * y) ps - reduce_sum snd ps * reduce_sum snd ps"
  have "pearson_denominator (map prod.swap ps) = Math_sqrt (?b * ?a)"
    by (simp add: pearson_denominator_def Let_def reduce_sum_swap)
  also have "?b * ?a = ?a * ?b" by (rule mult.commute)
  also have "Math_sqrt (?a * ?b) = pearson_denominator ps"
    by (simp add: pearson_denominator_def Let_def)
  finally show ?thesis .
qed

lemma pearson_coefficient_swap: "pearson_coefficient (map prod.swap ps) = pearson_coefficient ps"
  by (simp add: pearson_coefficient_def pearson_numerator_swap pearson_denominator_swap)

text \<open>
  Claim C8. Exchanging the two fields changes neither the coefficient nor the strength
  (and a missing field gives no result either way).
\<close>

theorem correlate_symmetric:
  "map_option cr_coefficient (correlate B calls schema a b) =
     map_option cr_coefficient (correlate B calls schema b a) \<and>
   map_option cr_strength (correlate B calls schema a b) =
     map_option cr_strength (correlate B calls schema b a)"
  by (simp add: correlate_def Let_def numeric_pairs_swap[of B calls b a] pearson_coefficient_swap
      split: option.splits)


lemma round_zero: "round_to 1000 (Fin 0) = Fin 0"
  by (simp add: Math_round_def)

lemma numeric_pair_Some:
  "numeric_pair B f1 f2 call \<noteq> None \<longleftrightarrow>
     (\<exists>m x y. metadata call = Some m \<and> Number_js B (get_prop m f1) = Fin x \<and>
        Number_js B (get_prop m f2) = Fin y)"
proof (cases "metadata call")
  case None
  then show ?thesis by (simp add: numeric_pair_def)
next
  case (Some m)
  show ?thesis
    by (cases "Number_js B (get_prop m f1)"; cases "Number_js B (get_prop m f2)")
       (simp_all add: numeric_pair_def Some)
qed

lemma numeric_pairs_length:
  "length (numeric_pairs B calls f1 f2) =
     length (filter (\<lambda>call. numeric_pair B f1 f2 call \<noteq> None) calls)"
  by (simp add: numeric_pairs_def List.map_filter_def)

text \<open>
  Claim C7. When both fields resolve in the schema and fewer than three records carry
  metadata in which both field values read as finite numbers, \<^verbatim>\<open>correlate\<close> returns a
  result with coefficient 0 and strength none.
\<close>

theorem correlate_few_pairs:
  assumes "find_field schema (Some field1Id) = Some field1"
    and "find_field schema (Some field2Id) = Some field2"
    and "length (filter (\<lambda>call. \<exists>m x y. metadata call = Some m \<and>
            Number_js B (get_prop m field1Id) = Fin x \<and>
            Number_js B (get_prop m field2Id) = Fin y) calls) < 3"
  shows "correlate B calls schema field1Id field2Id =
     Some \<lparr>cr_field1 = displayName field1, cr_field2 = displayName field2,
           cr_coefficient = Fin 0, cr_strength = NoStrength\<rparr>"
proof -
  have "length (numeric_pairs B calls field1Id field2Id) < 3"
    using assms(3) unfolding numeric_pairs_length numeric_pair_Some .
  then show ?thesis using assms(1,2) by (simp add: correlate_def)
qed




lemma pairs_two: "numeric_pairs no_builtins calls_two_pairs ''amount'' ''score'' = [(1, 2), (2, 4)]"
  by (simp add: numeric_pairs_def numeric_pair_def calls_two_pairs_def mk_call_def get_prop_def)


lemma pairs_three:
  "numeric_pairs no_builtins calls_pairs ''amount'' ''score'' = [(1, 2), (2, 4), (3, 6)]"
  by (simp add: numeric_pairs_def numeric_pair_def calls_pairs_def mk_call_def get_prop_def)

text \<open>
  The theorem of C7 at three records of which one has no score.
\<close>

theorem correlate_few_pairs_witness:
  "length (numeric_pairs no_builtins calls_two_pairs ''amount'' ''score'') = 2 \<and>
   correlate no_builtins calls_two_pairs example_schema ''amount'' ''score'' =
     Some \<lparr>cr_field1 = ''amount'', cr_field2 = ''score'', cr_coefficient = Fin 0,
           cr_strength = NoStrength\<rparr>"
proof -
  have "length (filter (\<lambda>call. numeric_pair no_builtins ''amount'' ''score'' call \<noteq> None)
      calls_two_pairs) = 2"
    using numeric_pairs_length[of no_builtins calls_two_pairs "''amount''" "''score''"]
    by (simp add: pairs_two)
  then have l: "length (filter (\<lambda>call. \<exists>m x y. metadata call = Some m \<and>
            Number_js no_builtins (get_prop m ''amount'') = Fin x \<and>
            Number_js no_builtins (get_prop m ''score'') = Fin y) calls_two_pairs) < 3"
    unfolding numeric_pair_Some by simp
  from correlate_few_pairs[OF example_fields(2) example_fields(3) l]
  show ?thesis by (simp add: pairs_two mk_field_def)
qed


lemma sqrt_144: "sqrt 144 = 12"
  using real_sqrt_abs[of 12] by simp

text \<open>
  The theorem of C8 at scenario 3 of the specification: the pairs (1,2), (2,4), (3,6) have
  coefficient 1 and strength strong in both orders.
\<close>

theorem correlate_symmetric_witness:
  "map_option cr_coefficient (correlate no_builtins calls_pairs example_schema ''amount'' ''score'') = Some (Fin 1) \<and>
   map_option cr_coefficient (correlate no_builtins calls_pairs example_schema ''score'' ''amount'') = Some (Fin 1) \<and>
   map_option cr_strength (correlate no_builtins calls_pairs example_schema ''amount'' ''score'') = Some Strong \<and>
   map_option cr_strength (correlate no_builtins calls_pairs example_schema ''score'' ''amount'') = Some Strong"
proof -
  have "correlate no_builtins calls_pairs example_schema ''amount'' ''score'' =
     Some \<lparr>cr_field1 = ''amount'', cr_field2 = ''score'', cr_coefficient = Fin 1, cr_strength = Strong\<rparr>"
    by (simp add: correlate_def example_schema_def mk_field_def pairs_three pearson_coefficient_def
        pearson_numerator_def pearson_denominator_def reduce_sum_def Math_sqrt_def sqrt_144
        strength_of_def Math_round_def)
  with correlate_symmetric[of no_builtins calls_pairs example_schema "''amount''" "''score''"]
  show ?thesis by simp
qed

subsection \<open>Histogram\<close>










subsection \<open>Percentile and median\<close>

lemma percentile_50_median:
  assumes "xs \<noteq> []"
  shows "percentile_of xs 50 = median_of xs"
proof (cases "even (length xs)")
  case True
  then obtain k where k: "length xs = 2 * k" by (auto elim: evenE)
  with assms have k1: "1 \<le> k" by (cases k) auto
  have idx: "(50 / 100) * (real (length xs) - 1) = real k - 1 / 2"
    using k by simp
  have fl: "\<lfloor>real k - 1 / 2\<rfloor> = int k - 1"
    by (rule floor_unique) simp_all
  have ce: "\<lceil>real k - 1 / 2\<rceil> = int k"
    by (rule ceiling_unique) simp_all
  have lo: "nat (int k - 1) = k - 1" by simp
  have w: "real k - 1 / 2 - real_of_int (int k - 1) = 1 / 2" by simp
  have "percentile_of xs 50 = xs ! (k - 1) * (1 - 1 / 2) + xs ! k * (1 / 2)"
    unfolding percentile_of_def idx Let_def fl ce w lo using k k1 by simp
  moreover have "median_of xs = (xs ! (k - 1) + xs ! k) / 2"
    using k by (simp add: median_of_def)
  ultimately show ?thesis by (simp add: field_simps)
next
  case False
  then obtain k where k: "length xs = 2 * k + 1" by (auto elim: oddE)
  have idx: "(50 / 100) * (real (length xs) - 1) = real k"
    using k by simp
  have "percentile_of xs 50 = xs ! k"
    unfolding percentile_of_def idx Let_def using k by simp
  moreover have "median_of xs = xs ! k"
    using k by (simp add: median_of_def)
  ultimately show ?thesis by simp
qed

text \<open>
  Claim C5, as the code has it. The median of \<^verbatim>\<open>calculateStatistics\<close> is the percentile
  50 of \<^verbatim>\<open>calculatePercentile\<close> rounded to two decimals; both return no value when no
  record has a finite number, and both raise on a record without metadata.
\<close>

theorem median_is_rounded_percentile_50:
  "map_sum id (map_option st_median) (calculateStatistics B calls fid) =
   map_sum id (map_option round2) (calculatePercentile B calls fid 50)"
proof (cases "numeric_values B calls fid")
  case (Inl e)
  then show ?thesis by (simp add: calculateStatistics_def calculatePercentile_def)
next
  case (Inr vals)
  show ?thesis
  proof (cases vals)
    case Nil
    then show ?thesis using Inr by (simp add: calculateStatistics_def calculatePercentile_def)
  next
    case (Cons v vs)
    have ne: "sort (v # vs) \<noteq> []" by (metis length_sort list.distinct(1) length_0_conv)
    have "calculatePercentile B calls fid 50 = Inr (Some (percentile_of (sort (v # vs)) 50))"
      using Inr Cons ne by (simp add: calculatePercentile_def Let_def)
    moreover have "map_sum id (map_option st_median) (calculateStatistics B calls fid) =
        Inr (Some (round2 (median_of (sort (v # vs)))))"
      using Inr Cons by (simp add: calculateStatistics_def Let_def)
    ultimately show ?thesis using percentile_50_median[OF ne] by simp
  qed
qed

text \<open>
  Claim C5 as stated fails: for the single value 0.125 the percentile 50 is 0.125 and the
  median is 0.13.
\<close>

theorem median_percentile_counterexample:
  "calculatePercentile no_builtins calls_eighth ''amount'' 50 = Inr (Some (1 / 8)) \<and>
   map_sum id (map_option st_median) (calculateStatistics no_builtins calls_eighth ''amount'') =
     Inr (Some (13 / 100)) \<and>
   (1 / 8 :: real) \<noteq> 13 / 100"
  by (simp add: calculatePercentile_def calculateStatistics_def numeric_values_def calls_eighth_def
      mk_call_def metadata_value_def get_prop_def percentile_of_def
      median_of_def round2_def Math_round_def)

text \<open>
  The theorem of C5 at the values 1 to 10, whose percentile 50 and median are 5.5.
\<close>

theorem median_is_rounded_percentile_50_witness:
  "calculatePercentile no_builtins calls_1_10 ''amount'' 50 = Inr (Some (11 / 2)) \<and>
   map_sum id (map_option st_median) (calculateStatistics no_builtins calls_1_10 ''amount'') =
     Inr (Some (11 / 2))"
proof -
  have p: "calculatePercentile no_builtins calls_1_10 ''amount'' 50 = Inr (Some (11 / 2))"
    by (simp add: calculatePercentile_def values_1_10 percentile_of_def)
  have "round2 (11 / 2) = 11 / 2" by (simp add: round2_def Math_round_def)
  with median_is_rounded_percentile_50[of no_builtins calls_1_10 "''amount''"] p
  show ?thesis by simp
qed

subsection \<open>Missing fields and missing values\<close>











subsection \<open>Where the engine raises\<close>

lemma date_groups_invalid_date:
  assumes "metadata call = Some m"
    and "isoDay B (js_or (get_prop m ts) (JStr (createdAt call))) = None"
  shows "date_groups B ts (call # calls) g = Inl RangeError"
  using assms by simp

text \<open>
  \<^verbatim>\<open>calculateTrends\<close> raises when the first record's timestamp is not a valid date.
\<close>

lemma calculateTrends_invalid_date:
  assumes "timestamp_field schema = Some timestampField"
    and "metadata call = Some m"
    and "isoDay B (js_or (get_prop m (field_id timestampField)) (JStr (createdAt call))) = None"
  shows "calculateTrends B (call # calls) schema view = Inl RangeError"
  using assms by (simp add: calculateTrends_def)

text \<open>
  The three functions without the metadata test raise on a record without metadata.
\<close>

lemma numeric_values_without_metadata:
  assumes "call \<in> set calls" and "metadata call = None"
  shows "calculatePercentile B calls fid percentile = Inl TypeError"
    and "generateHistogram B calls fid buckets = Inl TypeError"
    and "calculateStatistics B calls fid = Inl TypeError"
proof -
  have "numeric_values B calls fid = Inl TypeError"
    using assms by (auto simp: numeric_values_def list_ex_iff)
  then show "calculatePercentile B calls fid percentile = Inl TypeError"
    and "generateHistogram B calls fid buckets = Inl TypeError"
    and "calculateStatistics B calls fid = Inl TypeError"
    by (simp_all add: calculatePercentile_def generateHistogram_def calculateStatistics_def)
qed

end
